theory Spec2Isabelle
  imports Complex_Main
begin

section \<open>JavaScript containers and built-ins used by the aggregation code\<close>

text \<open>
  A JavaScript \<^verbatim>\<open>Map\<close> iterates in insertion order, and \<^verbatim>\<open>set\<close> on a key that is
  already present keeps the key's position. It is modelled as an association list with
  exactly that behaviour. \<^verbatim>\<open>map.get(k) ?? d\<close> is a \<^verbatim>\<open>case\<close> on \<open>jsmap_get\<close>.
\<close>

type_synonym ('k, 'v) jsmap = "('k \<times> 'v) list"

fun jsmap_get :: "('k, 'v) jsmap \<Rightarrow> 'k \<Rightarrow> 'v option" where
  "jsmap_get [] k = None"
| "jsmap_get ((k', v) # m) k = (if k' = k then Some v else jsmap_get m k)"

fun jsmap_set :: "'k \<Rightarrow> 'v \<Rightarrow> ('k, 'v) jsmap \<Rightarrow> ('k, 'v) jsmap" where
  "jsmap_set k v [] = [(k, v)]"
| "jsmap_set k v ((k', v') # m) =
     (if k' = k then (k, v) # m else (k', v') # jsmap_set k v m)"

definition jsmap_values :: "('k, 'v) jsmap \<Rightarrow> 'v list" where
  "jsmap_values m = map snd m"

text \<open>
  A JavaScript \<^verbatim>\<open>Set\<close> of strings, in insertion order: \<^verbatim>\<open>add\<close> of a member changes
  nothing, \<^verbatim>\<open>size\<close> is the length.
\<close>

definition jsset_add :: "'a \<Rightarrow> 'a list \<Rightarrow> 'a list" where
  "jsset_add x s = (if x \<in> set s then s else s @ [x])"

text \<open>
  \<^verbatim>\<open>Array.prototype.sort(cmp)\<close> is stable: an element \<open>a\<close> goes before \<open>b\<close> when
  \<open>cmp a b < 0\<close>, and elements that compare equal keep their order. Insertion from the
  right, placing an element before the first one it does not have to follow, computes
  that order.
\<close>

fun insertBy :: "('a \<Rightarrow> 'a \<Rightarrow> int) \<Rightarrow> 'a \<Rightarrow> 'a list \<Rightarrow> 'a list" where
  "insertBy cmp x [] = [x]"
| "insertBy cmp x (y # ys) =
     (if cmp x y \<le> 0 then x # y # ys else y # insertBy cmp x ys)"

definition sortBy :: "('a \<Rightarrow> 'a \<Rightarrow> int) \<Rightarrow> 'a list \<Rightarrow> 'a list" where
  "sortBy cmp xs = foldr (insertBy cmp) xs []"

text \<open>
  \<^verbatim>\<open>Math.round\<close> rounds to the nearest integer, a half towards plus infinity. The
  numbers of the dashboard are counts; quotients of counts are modelled as exact
  rationals.
\<close>

definition Math_round :: "rat \<Rightarrow> int" where
  "Math_round x = \<lfloor>x + 1 / 2\<rfloor>"

section \<open>Host objects: nodes, pods, events\<close>

text \<open>
  The host's objects are consumed through their accessors. Each accessor the code calls
  is a field here: \<^verbatim>\<open>isUnschedulable()\<close>, \<^verbatim>\<open>getConditions()\<close>, \<^verbatim>\<open>getTaints()\<close>,
  \<^verbatim>\<open>getName()\<close> of a node; \<^verbatim>\<open>getNs()\<close>, \<^verbatim>\<open>getStatusPhase()\<close>, \<^verbatim>\<open>hasIssues()\<close>,
  \<^verbatim>\<open>getRestartsCount()\<close> of a pod; \<^verbatim>\<open>getNs()\<close>, \<^verbatim>\<open>type\<close>, \<^verbatim>\<open>reason\<close>, \<^verbatim>\<open>count\<close>
  and \<^verbatim>\<open>involvedObject\<close> of an event. An absent optional value is \<open>None\<close>.
  Restart counts and event counts are the non-negative integers of the cluster's API, so
  they are natural numbers; differences of counts are taken in the integers.
\<close>

record condition =
  ctype :: string
  cstatus :: string

record 'taint node =
  node_name :: string
  node_unschedulable :: bool
  node_conditions :: "condition list"
  node_taints :: "'taint list"

record pod =
  pod_ns :: "string option"
  pod_statusPhase :: "string option"
  pod_hasIssues :: bool
  pod_restartsCount :: nat

record involvedObject =
  io_name :: string
  io_namespace :: "string option"

record kubeEvent =
  ev_ns :: "string option"
  ev_type :: string
  ev_reason :: "string option"
  ev_count :: "nat option"
  ev_involvedObject :: involvedObject

definition isWarning :: "kubeEvent \<Rightarrow> bool" where
  \<comment> \<open>Modelled from the spec: the host's \<^verbatim>\<open>isWarning()\<close> method of an event is not part
      of the extension; the spec's "warning/normal type flag" is the event's type being
      the string Warning.\<close>
  "isWarning e = (ev_type e = ''Warning'')"

definition eventCount :: "kubeEvent \<Rightarrow> nat" where
  \<comment> \<open>\<^verbatim>\<open>event.count ?? 1\<close>\<close>
  "eventCount e = (case ev_count e of None \<Rightarrow> 1 | Some c \<Rightarrow> c)"

section \<open>Node status (nodes-page.tsx, sre-stats-page.tsx)\<close>

datatype nodeStatus = Ready | NotReady | SchedulingDisabled | Unknown

definition readyCondition :: "'t node \<Rightarrow> condition option" where
  \<comment> \<open>\<^verbatim>\<open>node.getConditions().find((c) => c.type === "Ready")\<close>\<close>
  "readyCondition n = find (\<lambda>c. ctype c = ''Ready'') (node_conditions n)"

definition getNodeStatus :: "'t node \<Rightarrow> nodeStatus" where
  "getNodeStatus n =
     (if node_unschedulable n then SchedulingDisabled
      else case readyCondition n of
             None \<Rightarrow> Unknown
           | Some rc \<Rightarrow> (if cstatus rc = ''True'' then Ready else NotReady))"

section \<open>Taint summary (nodes-page.tsx, sre-stats-page.tsx)\<close>

record taintData =
  td_nodes :: "string list"
  td_occurrences :: nat

record taintSummaryItem =
  taint :: string
  nodes :: nat
  occurrences :: nat

text \<open>
  \<^verbatim>\<open>formatNodeTaint\<close> is imported from the host's library; it is the parameter \<open>fmt\<close>.
\<close>

definition taintStep :: "('t \<Rightarrow> string) \<Rightarrow> string \<Rightarrow> 't \<Rightarrow> (string, taintData) jsmap
    \<Rightarrow> (string, taintData) jsmap" where
  "taintStep fmt nodeName t taintSummary =
     (let taintLabel = fmt t;
          entry = (case jsmap_get taintSummary taintLabel of
                     None \<Rightarrow> \<lparr>td_nodes = [], td_occurrences = 0\<rparr>
                   | Some e \<Rightarrow> e);
          entry1 = entry\<lparr>td_nodes := jsset_add nodeName (td_nodes entry)\<rparr>;
          entry2 = entry1\<lparr>td_occurrences := td_occurrences entry1 + 1\<rparr>
      in jsmap_set taintLabel entry2 taintSummary)"

definition taintNodeStep :: "('t \<Rightarrow> string) \<Rightarrow> 't node \<Rightarrow> (string, taintData) jsmap
    \<Rightarrow> (string, taintData) jsmap" where
  "taintNodeStep fmt n taintSummary =
     fold (taintStep fmt (node_name n)) (node_taints n) taintSummary"

definition taintCompare :: "taintSummaryItem \<Rightarrow> taintSummaryItem \<Rightarrow> int" where
  \<comment> \<open>\<^verbatim>\<open>(a, b) => b.occurrences - a.occurrences\<close>\<close>
  "taintCompare a b = int (occurrences b) - int (occurrences a)"

definition taintItem :: "string \<times> taintData \<Rightarrow> taintSummaryItem" where
  "taintItem p =
     \<lparr>taint = fst p, nodes = length (td_nodes (snd p)), occurrences = td_occurrences (snd p)\<rparr>"

definition buildTaintSummary :: "('t \<Rightarrow> string) \<Rightarrow> 't node list \<Rightarrow> taintSummaryItem list" where
  "buildTaintSummary fmt ns =
     sortBy taintCompare (map taintItem (fold (taintNodeStep fmt) ns []))"

section \<open>Pod phase and namespace statistics (pods-page.tsx, sre-stats-page.tsx)\<close>

datatype podPhase = Running | Pending | Failed | Succeeded | UnknownPhase

definition getPodPhase :: "pod \<Rightarrow> podPhase" where
  "getPodPhase p =
     (if pod_statusPhase p = Some ''Running'' then Running
      else if pod_statusPhase p = Some ''Pending'' then Pending
      else if pod_statusPhase p = Some ''Failed'' then Failed
      else if pod_statusPhase p = Some ''Succeeded'' then Succeeded
      else UnknownPhase)"

record namespacePodStats =
  namespace :: string
  running :: nat
  pending :: nat
  failed :: nat
  succeeded :: nat
  unknown :: nat
  issues :: nat
  restarts :: nat
  warningEvents :: nat
  issueScore :: nat
  total :: nat

definition eventNamespace :: "kubeEvent \<Rightarrow> string" where
  \<comment> \<open>\<^verbatim>\<open>event.getNs() ?? event.involvedObject?.namespace ?? "<cluster>"\<close>\<close>
  "eventNamespace e =
     (case ev_ns e of
        Some n \<Rightarrow> n
      | None \<Rightarrow> (case io_namespace (ev_involvedObject e) of
                   Some n \<Rightarrow> n
                 | None \<Rightarrow> ''<cluster>''))"

definition warningNsStep :: "kubeEvent \<Rightarrow> (string, nat) jsmap \<Rightarrow> (string, nat) jsmap" where
  "warningNsStep e warnings =
     (if \<not> isWarning e then warnings
      else let ns = eventNamespace e;
               count = eventCount e
           in jsmap_set ns ((case jsmap_get warnings ns of None \<Rightarrow> 0 | Some c \<Rightarrow> c) + count)
                warnings)"

definition buildWarningEventsByNamespace :: "kubeEvent list \<Rightarrow> (string, nat) jsmap" where
  "buildWarningEventsByNamespace events = fold warningNsStep events []"

definition warningsOf :: "(string, nat) jsmap \<Rightarrow> string \<Rightarrow> nat" where
  \<comment> \<open>\<^verbatim>\<open>warningEventsByNamespace.get(namespace) ?? 0\<close>\<close>
  "warningsOf w ns = (case jsmap_get w ns of None \<Rightarrow> 0 | Some c \<Rightarrow> c)"

definition podNamespace :: "pod \<Rightarrow> string" where
  \<comment> \<open>\<^verbatim>\<open>pod.getNs() ?? "<unknown>"\<close>\<close>
  "podNamespace p = (case pod_ns p of None \<Rightarrow> ''<unknown>'' | Some n \<Rightarrow> n)"

definition newStats :: "(string, nat) jsmap \<Rightarrow> string \<Rightarrow> namespacePodStats" where
  "newStats w ns =
     \<lparr>namespace = ns, running = 0, pending = 0, failed = 0, succeeded = 0, unknown = 0,
      issues = 0, restarts = 0, warningEvents = warningsOf w ns, issueScore = 0, total = 0\<rparr>"

definition countPhase :: "podPhase \<Rightarrow> namespacePodStats \<Rightarrow> namespacePodStats" where
  "countPhase ph entry =
     (case ph of
        Running \<Rightarrow> entry\<lparr>running := running entry + 1\<rparr>
      | Pending \<Rightarrow> entry\<lparr>pending := pending entry + 1\<rparr>
      | Failed \<Rightarrow> entry\<lparr>failed := failed entry + 1\<rparr>
      | Succeeded \<Rightarrow> entry\<lparr>succeeded := succeeded entry + 1\<rparr>
      | UnknownPhase \<Rightarrow> entry\<lparr>unknown := unknown entry + 1\<rparr>)"

definition addPod :: "pod \<Rightarrow> namespacePodStats \<Rightarrow> namespacePodStats" where
  "addPod p entry =
     (let phase = getPodPhase p;
          e1 = entry\<lparr>total := total entry + 1\<rparr>;
          e2 = countPhase phase e1;
          e3 = (if pod_hasIssues p then e2\<lparr>issues := issues e2 + 1\<rparr> else e2)
      in e3\<lparr>restarts := restarts e3 + pod_restartsCount p\<rparr>)"

definition podStatsStep :: "(string, nat) jsmap \<Rightarrow> pod \<Rightarrow> (string, namespacePodStats) jsmap
    \<Rightarrow> (string, namespacePodStats) jsmap" where
  "podStatsStep w p stats =
     (let ns = podNamespace p;
          entry = (case jsmap_get stats ns of None \<Rightarrow> newStats w ns | Some e \<Rightarrow> e)
      in jsmap_set ns (addPod p entry) stats)"

definition scoreEntry :: "(string, nat) jsmap \<Rightarrow> namespacePodStats \<Rightarrow> namespacePodStats" where
  "scoreEntry w entry =
     (let e1 = entry\<lparr>warningEvents := warningsOf w (namespace entry)\<rparr>
      in e1\<lparr>issueScore := issues e1 + restarts e1 + warningEvents e1\<rparr>)"

definition statsCompare :: "namespacePodStats \<Rightarrow> namespacePodStats \<Rightarrow> int" where
  \<comment> \<open>\<^verbatim>\<open>(a, b) => b.issues - a.issues || b.total - a.total\<close>\<close>
  "statsCompare a b =
     (if int (issues b) - int (issues a) \<noteq> 0 then int (issues b) - int (issues a)
      else int (total b) - int (total a))"

definition buildNamespacePodStats :: "pod list \<Rightarrow> (string, nat) jsmap \<Rightarrow> namespacePodStats list"
  where
  "buildNamespacePodStats pods w =
     sortBy statsCompare (map (scoreEntry w) (jsmap_values (fold (podStatsStep w) pods [])))"

section \<open>Heatmap buckets (pods-page.tsx, sre-stats-page.tsx)\<close>

definition Math_max0 :: "nat list \<Rightarrow> nat" where
  \<comment> \<open>\<^verbatim>\<open>Math.max(0, ...xs)\<close>\<close>
  "Math_max0 xs = fold max xs 0"

definition intensityOf :: "nat \<Rightarrow> nat \<Rightarrow> nat" where
  "intensityOf maxScore score =
     (let ratio = (if maxScore = 0 then 0 else (of_nat score :: rat) / of_nat maxScore)
      in if ratio \<ge> 3 / 4 then 4
         else if ratio \<ge> 1 / 2 then 3
         else if ratio \<ge> 1 / 4 then 2
         else if ratio > 0 then 1
         else 0)"

definition heatmapEntries :: "namespacePodStats list \<Rightarrow> (namespacePodStats \<times> nat) list" where
  "heatmapEntries namespaceStats =
     (let maxScore = Math_max0 (map issueScore namespaceStats)
      in map (\<lambda>entry. (entry, intensityOf maxScore (issueScore entry))) namespaceStats)"

section \<open>Warning reasons (events page)\<close>

record reasonData =
  rd_count :: nat
  rd_namespaces :: "string list"
  rd_resources :: "string list"

record warningReasonSummary =
  wr_reason :: string
  wr_count :: nat
  wr_namespaces :: "string list"
  wr_resources :: "string list"

definition eventReason :: "kubeEvent \<Rightarrow> string" where
  \<comment> \<open>\<^verbatim>\<open>event.reason ?? "<unknown>"\<close>\<close>
  "eventReason e = (case ev_reason e of None \<Rightarrow> ''<unknown>'' | Some r \<Rightarrow> r)"

definition involvedNamespace :: "kubeEvent \<Rightarrow> string" where
  \<comment> \<open>\<^verbatim>\<open>event.involvedObject.namespace || "cluster"\<close>: the empty string is falsy too\<close>
  "involvedNamespace e =
     (case io_namespace (ev_involvedObject e) of
        None \<Rightarrow> ''cluster''
      | Some n \<Rightarrow> (if n = [] then ''cluster'' else n))"

definition addWarning :: "kubeEvent \<Rightarrow> reasonData \<Rightarrow> reasonData" where
  "addWarning e entry =
     (let count = eventCount e;
          ns = involvedNamespace e;
          resource = io_name (ev_involvedObject e);
          e1 = entry\<lparr>rd_count := rd_count entry + count\<rparr>;
          e2 = e1\<lparr>rd_namespaces := jsset_add ns (rd_namespaces e1)\<rparr>
      in if length (rd_resources e2) < 10
         then e2\<lparr>rd_resources := rd_resources e2 @ [resource]\<rparr>
         else e2)"

definition emptyReason :: reasonData where
  "emptyReason = \<lparr>rd_count = 0, rd_namespaces = [], rd_resources = []\<rparr>"

definition warningReasonStep :: "kubeEvent \<Rightarrow> (string, reasonData) jsmap
    \<Rightarrow> (string, reasonData) jsmap" where
  "warningReasonStep e reasons =
     (if \<not> isWarning e then reasons
      else let reason = eventReason e;
               entry = (case jsmap_get reasons reason of None \<Rightarrow> emptyReason | Some d \<Rightarrow> d)
           in jsmap_set reason (addWarning e entry) reasons)"

definition reasonItem :: "string \<times> reasonData \<Rightarrow> warningReasonSummary" where
  "reasonItem p =
     \<lparr>wr_reason = fst p, wr_count = rd_count (snd p),
      wr_namespaces = rd_namespaces (snd p), wr_resources = rd_resources (snd p)\<rparr>"

definition reasonCompare :: "warningReasonSummary \<Rightarrow> warningReasonSummary \<Rightarrow> int" where
  \<comment> \<open>\<^verbatim>\<open>(a, b) => b.count - a.count\<close>\<close>
  "reasonCompare a b = int (wr_count b) - int (wr_count a)"

definition buildWarningReasons :: "kubeEvent list \<Rightarrow> warningReasonSummary list" where
  "buildWarningReasons events =
     sortBy reasonCompare (map reasonItem (fold warningReasonStep events []))"

section \<open>Event summary (sre-stats-page.tsx)\<close>

record eventSummary =
  es_warnings :: nat
  es_normals :: nat
  es_others :: nat

definition eventSummaryStep :: "kubeEvent \<Rightarrow> eventSummary \<Rightarrow> eventSummary" where
  "eventSummaryStep e s =
     (let count = eventCount e
      in if isWarning e then s\<lparr>es_warnings := es_warnings s + count\<rparr>
         else if ev_type e = ''Normal'' then s\<lparr>es_normals := es_normals s + count\<rparr>
         else s\<lparr>es_others := es_others s + count\<rparr>)"

definition eventSummaryOf :: "kubeEvent list \<Rightarrow> eventSummary" where
  "eventSummaryOf events =
     fold eventSummaryStep events \<lparr>es_warnings = 0, es_normals = 0, es_others = 0\<rparr>"

section \<open>Cluster health score (overview-page.tsx)\<close>

text \<open>
  The counters of the overview's \<^verbatim>\<open>summary\<close> that come from the three loops. The
  counter \<^verbatim>\<open>nodesWithWarnings\<close> (from the host's \<^verbatim>\<open>getWarningConditions()\<close>) is
  displayed only and does not enter the score.
\<close>

record summary =
  runningPods :: nat
  pendingPods :: nat
  failedPods :: nat
  podsWithIssues :: nat
  totalRestarts :: nat
  nodesNotReady :: nat
  warningEventsTotal :: nat
  normalEvents :: nat

definition summaryInit :: summary where
  "summaryInit = \<lparr>runningPods = 0, pendingPods = 0, failedPods = 0, podsWithIssues = 0,
     totalRestarts = 0, nodesNotReady = 0, warningEventsTotal = 0, normalEvents = 0\<rparr>"

definition summaryPod :: "pod \<Rightarrow> summary \<Rightarrow> summary" where
  "summaryPod p s =
     (let phase = pod_statusPhase p;
          s1 = (if phase = Some ''Running'' then s\<lparr>runningPods := runningPods s + 1\<rparr> else s);
          s2 = (if phase = Some ''Pending'' then s1\<lparr>pendingPods := pendingPods s1 + 1\<rparr> else s1);
          s3 = (if phase = Some ''Failed'' then s2\<lparr>failedPods := failedPods s2 + 1\<rparr> else s2);
          s4 = (if pod_hasIssues p then s3\<lparr>podsWithIssues := podsWithIssues s3 + 1\<rparr> else s3)
      in s4\<lparr>totalRestarts := totalRestarts s4 + pod_restartsCount p\<rparr>)"

definition readyIsTrue :: "'t node \<Rightarrow> bool" where
  \<comment> \<open>\<^verbatim>\<open>readyCondition?.status === "True"\<close>\<close>
  "readyIsTrue n = (case readyCondition n of None \<Rightarrow> False | Some rc \<Rightarrow> cstatus rc = ''True'')"

definition summaryNode :: "'t node \<Rightarrow> summary \<Rightarrow> summary" where
  "summaryNode n s =
     (if \<not> readyIsTrue n then s\<lparr>nodesNotReady := nodesNotReady s + 1\<rparr> else s)"

definition summaryEvent :: "kubeEvent \<Rightarrow> summary \<Rightarrow> summary" where
  "summaryEvent e s =
     (let count = eventCount e
      in if isWarning e then s\<lparr>warningEventsTotal := warningEventsTotal s + count\<rparr>
         else if ev_type e = ''Normal'' then s\<lparr>normalEvents := normalEvents s + count\<rparr>
         else s)"

definition summaryOf :: "'t node list \<Rightarrow> pod list \<Rightarrow> kubeEvent list \<Rightarrow> summary" where
  "summaryOf ns pods events =
     fold summaryEvent events (fold summaryNode ns (fold summaryPod pods summaryInit))"

definition healthFormula :: "nat \<Rightarrow> nat \<Rightarrow> summary \<Rightarrow> int" where
  "healthFormula nodeCount podCount s =
     (if nodeCount > 0
      then Math_round
             ((of_int (int nodeCount - int (nodesNotReady s)) / of_nat nodeCount) * 40
              + (of_int (int podCount - int (podsWithIssues s) - int (failedPods s))
                   / of_nat (max podCount 1)) * 40
              + (if warningEventsTotal s = 0 then 20
                 else of_int (max 0 (20 - int (warningEventsTotal s)))))
      else 100)"

definition clusterHealthScore :: "'t node list \<Rightarrow> pod list \<Rightarrow> kubeEvent list \<Rightarrow> int" where
  "clusterHealthScore ns pods events =
     healthFormula (length ns) (length pods) (summaryOf ns pods events)"

section \<open>Invariants and abbreviations used in the proofs\<close>

text \<open>
  \<open>statsOk\<close> and \<open>taintOk\<close> are the invariants of the entries of the two
  Maps, \<open>touchTaint\<close> is the update of a taint entry in one loop step, \<open>resourceOf\<close>
  and \<open>warningsFor\<close> name the involved-object name of an event and the warning events
  of one reason.
\<close>

definition statsOk :: "string \<Rightarrow> namespacePodStats \<Rightarrow> bool" where
  "statsOk k e \<longleftrightarrow> namespace e = k
     \<and> running e + pending e + failed e + succeeded e + unknown e = total e"

definition touchTaint :: "string \<Rightarrow> taintData \<Rightarrow> taintData" where
  "touchTaint nodeName e =
     e\<lparr>td_nodes := jsset_add nodeName (td_nodes e), td_occurrences := td_occurrences e + 1\<rparr>"

definition taintOk :: "string \<Rightarrow> taintData \<Rightarrow> bool" where
  "taintOk k d \<longleftrightarrow> length (td_nodes d) \<le> td_occurrences d"

definition resourceOf :: "kubeEvent \<Rightarrow> string" where
  "resourceOf e = io_name (ev_involvedObject e)"

definition warningsFor :: "string \<Rightarrow> kubeEvent list \<Rightarrow> kubeEvent list" where
  "warningsFor r es = filter (\<lambda>e. isWarning e \<and> eventReason e = r) es"

section \<open>Sample inputs\<close>

definition cordoned :: "unit node" where
  "cordoned = \<lparr>node_name = ''n1'', node_unschedulable = True,
     node_conditions = [\<lparr>ctype = ''Ready'', cstatus = ''True''\<rparr>], node_taints = []\<rparr>"

definition bare :: "unit node" where
  "bare = \<lparr>node_name = ''n2'', node_unschedulable = False,
     node_conditions = [\<lparr>ctype = ''MemoryPressure'', cstatus = ''True''\<rparr>], node_taints = []\<rparr>"

definition healthy :: "unit node" where
  "healthy = \<lparr>node_name = ''n3'', node_unschedulable = False,
     node_conditions = [\<lparr>ctype = ''MemoryPressure'', cstatus = ''False''\<rparr>,
                        \<lparr>ctype = ''Ready'', cstatus = ''True''\<rparr>], node_taints = []\<rparr>"

definition down :: "unit node" where
  "down = \<lparr>node_name = ''n4'', node_unschedulable = False,
     node_conditions = [\<lparr>ctype = ''Ready'', cstatus = ''Unknown''\<rparr>], node_taints = []\<rparr>"

definition failedPod :: pod where
  "failedPod = \<lparr>pod_ns = Some ''default'', pod_statusPhase = Some ''Failed'',
     pod_hasIssues = True, pod_restartsCount = 0\<rparr>"

definition runningPod :: pod where
  "runningPod = \<lparr>pod_ns = Some ''default'', pod_statusPhase = Some ''Running'',
     pod_hasIssues = False, pod_restartsCount = 0\<rparr>"

definition backOff20 :: kubeEvent where
  "backOff20 = \<lparr>ev_ns = Some ''default'', ev_type = ''Warning'', ev_reason = Some ''BackOff'',
     ev_count = Some 20, ev_involvedObject = \<lparr>io_name = ''web-0'', io_namespace = Some ''default''\<rparr>\<rparr>"

definition pulled :: kubeEvent where
  "pulled = \<lparr>ev_ns = Some ''default'', ev_type = ''Normal'', ev_reason = Some ''Pulled'',
     ev_count = None, ev_involvedObject = \<lparr>io_name = ''web-0'', io_namespace = Some ''default''\<rparr>\<rparr>"

definition sampleStats :: "string \<Rightarrow> nat \<Rightarrow> namespacePodStats" where
  "sampleStats ns score =
     \<lparr>namespace = ns, running = 0, pending = score, failed = 0, succeeded = 0, unknown = 0,
      issues = score, restarts = 0, warningEvents = 0, issueScore = score, total = score\<rparr>"

definition pendingPod :: pod where
  "pendingPod = \<lparr>pod_ns = Some ''batch'', pod_statusPhase = Some ''Pending'',
     pod_hasIssues = True, pod_restartsCount = 3\<rparr>"

definition orphanPod :: pod where
  "orphanPod = \<lparr>pod_ns = None, pod_statusPhase = None,
     pod_hasIssues = False, pod_restartsCount = 1\<rparr>"

definition samplePods :: "pod list" where
  "samplePods = [runningPod, pendingPod, failedPod, orphanPod, pendingPod]"

definition sampleWarnings :: "(string, nat) jsmap" where
  "sampleWarnings = [(''default'', 2), (''kube-system'', 7)]"

definition batchStats :: namespacePodStats where
  "batchStats = \<lparr>namespace = ''batch'', running = 0, pending = 2, failed = 0, succeeded = 0,
     unknown = 0, issues = 2, restarts = 6, warningEvents = 0, issueScore = 8, total = 2\<rparr>"

definition defaultStats :: namespacePodStats where
  "defaultStats = \<lparr>namespace = ''default'', running = 1, pending = 0, failed = 1,
     succeeded = 0, unknown = 0, issues = 1, restarts = 0, warningEvents = 2, issueScore = 3,
     total = 2\<rparr>"

definition unknownStats :: namespacePodStats where
  "unknownStats = \<lparr>namespace = ''<unknown>'', running = 0, pending = 0, failed = 0,
     succeeded = 0, unknown = 1, issues = 0, restarts = 1, warningEvents = 0, issueScore = 1,
     total = 1\<rparr>"

definition gpuSpot :: "string node" where
  "gpuSpot = \<lparr>node_name = ''gpu-1'', node_unschedulable = False,
     node_conditions = [\<lparr>ctype = ''Ready'', cstatus = ''True''\<rparr>],
     node_taints = [''dedicated=gpu:NoSchedule'', ''spot:NoExecute'']\<rparr>"

definition gpuTwice :: "string node" where
  "gpuTwice = \<lparr>node_name = ''gpu-2'', node_unschedulable = False,
     node_conditions = [\<lparr>ctype = ''Ready'', cstatus = ''True''\<rparr>],
     node_taints = [''dedicated=gpu:NoSchedule'', ''dedicated=gpu:NoSchedule'']\<rparr>"

definition labelOf :: "string \<Rightarrow> string" where
  "labelOf t = t"

definition gpuItem :: taintSummaryItem where
  "gpuItem = \<lparr>taint = ''dedicated=gpu:NoSchedule'', nodes = 2, occurrences = 3\<rparr>"

definition spotItem :: taintSummaryItem where
  "spotItem = \<lparr>taint = ''spot:NoExecute'', nodes = 1, occurrences = 1\<rparr>"

definition warningOn :: "string \<Rightarrow> string \<Rightarrow> string \<Rightarrow> nat option \<Rightarrow> kubeEvent" where
  "warningOn reason resource ns c =
     \<lparr>ev_ns = Some ns, ev_type = ''Warning'', ev_reason = Some reason, ev_count = c,
      ev_involvedObject = \<lparr>io_name = resource, io_namespace = Some ns\<rparr>\<rparr>"

definition sampleEvents :: "kubeEvent list" where
  "sampleEvents =
     [warningOn ''BackOff'' ''web-0'' ''a'' (Some 3), pulled,
      warningOn ''BackOff'' ''web-1'' ''b'' (Some 2),
      warningOn ''FailedMount'' ''db-0'' ''a'' None]"

definition burst :: "kubeEvent list" where
  "burst =
     [warningOn ''BackOff'' ''web-0'' ''a'' None, warningOn ''BackOff'' ''web-1'' ''a'' None,
      warningOn ''BackOff'' ''web-0'' ''a'' None, warningOn ''BackOff'' ''web-1'' ''a'' None,
      warningOn ''BackOff'' ''web-0'' ''a'' None, warningOn ''FailedMount'' ''db-0'' ''a'' None,
      warningOn ''BackOff'' ''web-1'' ''a'' None, warningOn ''BackOff'' ''web-0'' ''a'' None,
      warningOn ''BackOff'' ''web-1'' ''a'' None, pulled,
      warningOn ''BackOff'' ''web-0'' ''a'' None, warningOn ''BackOff'' ''web-1'' ''a'' None,
      warningOn ''BackOff'' ''late-0'' ''z'' (Some 5), warningOn ''BackOff'' ''late-1'' ''z'' None]"

definition backOffSummary :: warningReasonSummary where
  "backOffSummary =
     \<lparr>wr_reason = ''BackOff'', wr_count = 16, wr_namespaces = [''a'', ''z''],
      wr_resources = [''web-0'', ''web-1'', ''web-0'', ''web-1'', ''web-0'', ''web-1'',
                      ''web-0'', ''web-1'', ''web-0'', ''web-1'']\<rparr>"

definition failedMountSummary :: warningReasonSummary where
  "failedMountSummary =
     \<lparr>wr_reason = ''FailedMount'', wr_count = 1, wr_namespaces = [''a''],
      wr_resources = [''db-0'']\<rparr>"

section \<open>Facts about the containers and the sort\<close>

lemma jsmap_get_set:
  "jsmap_get (jsmap_set k v m) k' = (if k' = k then Some v else jsmap_get m k')"
  by (induction m) auto

lemma jsmap_set_keys:
  "map fst (jsmap_set k v m) = (if k \<in> set (map fst m) then map fst m else map fst m @ [k])"
  by (induction m) (force+)

lemma jsmap_set_distinct:
  "distinct (map fst m) \<Longrightarrow> distinct (map fst (jsmap_set k v m))"
  by (simp add: jsmap_set_keys)

lemma jsmap_get_None_iff: "jsmap_get m k = None \<longleftrightarrow> k \<notin> set (map fst m)"
  by (induction m) (force+)

lemma jsmap_get_Some_iff:
  "distinct (map fst m) \<Longrightarrow> jsmap_get m k = Some v \<longleftrightarrow> (k, v) \<in> set m"
proof (induction m)
  case Nil
  then show ?case by simp
next
  case (Cons p m)
  obtain k' v' where p: "p = (k', v')" by (cases p)
  from Cons.prems p have notin: "k' \<notin> set (map fst m)" and d: "distinct (map fst m)"
    by simp_all
  show ?case
  proof (cases "k' = k")
    case True
    with notin have "\<And>u. (k, u) \<notin> set m" by force
    with True p show ?thesis by auto
  next
    case False
    with p Cons.IH[OF d] show ?thesis by auto
  qed
qed

lemma jsmap_set_entries:
  "p \<in> set (jsmap_set k v m) \<Longrightarrow> p = (k, v) \<or> p \<in> set m"
  by (induction m) (auto split: if_splits)

lemma jsmap_set_sum:
  "h v = h' (jsmap_get m k) + c \<Longrightarrow> h' None = 0 \<Longrightarrow> (\<And>u. h' (Some u) = h u) \<Longrightarrow>
   sum_list (map (\<lambda>p. h (snd p)) (jsmap_set k v m)) = sum_list (map (\<lambda>p. h (snd p)) m) + (c::nat)"
  by (induction m) auto

lemma insertBy_set: "set (insertBy cmp x ys) = insert x (set ys)"
  by (induction ys) auto

lemma sortBy_set: "set (sortBy cmp xs) = set xs"
  by (induction xs) (auto simp: sortBy_def insertBy_set)

lemma insertBy_length: "length (insertBy cmp x ys) = Suc (length ys)"
  by (induction ys) auto

lemma sortBy_length: "length (sortBy cmp xs) = length xs"
  by (induction xs) (auto simp: sortBy_def insertBy_length)

lemma insertBy_sum: "sum_list (map f (insertBy cmp x ys)) = (f x :: nat) + sum_list (map f ys)"
  by (induction ys) auto

lemma sortBy_sum: "sum_list (map f (sortBy cmp xs)) = (sum_list (map f xs) :: nat)"
  by (induction xs) (auto simp: sortBy_def insertBy_sum)

lemma insertBy_distinct:
  "distinct (map f (insertBy cmp x ys)) \<longleftrightarrow> f x \<notin> f ` set ys \<and> distinct (map f ys)"
  by (induction ys) (auto simp: insertBy_set)

lemma sortBy_distinct: "distinct (map f (sortBy cmp xs)) \<longleftrightarrow> distinct (map f xs)"
  by (induction xs) (auto simp: sortBy_def insertBy_distinct insertBy_set sortBy_set[unfolded sortBy_def])

lemma insertBy_sorted:
  assumes tot: "\<And>a b. \<not> cmp a b \<le> 0 \<Longrightarrow> cmp b a \<le> 0"
    and trans: "\<And>a b c. cmp a b \<le> 0 \<Longrightarrow> cmp b c \<le> 0 \<Longrightarrow> cmp a c \<le> 0"
  shows "sorted_wrt (\<lambda>a b. cmp a b \<le> 0) ys \<Longrightarrow> sorted_wrt (\<lambda>a b. cmp a b \<le> 0) (insertBy cmp x ys)"
proof (induction ys)
  case Nil
  then show ?case by simp
next
  case (Cons y ys)
  show ?case
  proof (cases "cmp x y \<le> 0")
    case True
    with Cons.prems trans show ?thesis by auto
  next
    case False
    with Cons tot show ?thesis by (auto simp: insertBy_set)
  qed
qed

lemma sortBy_sorted:
  assumes tot: "\<And>a b. \<not> cmp a b \<le> 0 \<Longrightarrow> cmp b a \<le> 0"
    and trans: "\<And>a b c. cmp a b \<le> 0 \<Longrightarrow> cmp b c \<le> 0 \<Longrightarrow> cmp a c \<le> 0"
  shows "sorted_wrt (\<lambda>a b. cmp a b \<le> 0) (sortBy cmp xs)"
proof (induction xs)
  case Nil
  then show ?case by (simp add: sortBy_def)
next
  case (Cons x xs)
  have "sortBy cmp (x # xs) = insertBy cmp x (sortBy cmp xs)"
    by (simp add: sortBy_def)
  with Cons insertBy_sorted[of cmp, OF tot trans] show ?case by simp
qed

section \<open>Node status\<close>

lemma find_None_no_Ready:
  "readyCondition n = None \<longleftrightarrow> (\<forall>c \<in> set (node_conditions n). ctype c \<noteq> ''Ready'')"
  by (auto simp: readyCondition_def find_None_iff)

lemma find_first_Ready:
  assumes "node_conditions n = pre @ c # post"
    and "\<forall>d \<in> set pre. ctype d \<noteq> ''Ready''"
    and "ctype c = ''Ready''"
  shows "readyCondition n = Some c"
  using assms(2) unfolding readyCondition_def assms(1)
  by (induction pre) (auto simp: assms(3))

text \<open>
  C5. The status classifier follows three rules in priority order: an unschedulable node
  is SchedulingDisabled; otherwise a node without a condition of type Ready is Unknown;
  otherwise the node is Ready exactly when the status of its Ready condition (the first
  one of that type in the condition list) is the string True, and NotReady exactly when
  it is not.
\<close>

theorem getNodeStatus_priority:
  "(node_unschedulable n \<longrightarrow> getNodeStatus n = SchedulingDisabled) \<and>
   (\<not> node_unschedulable n \<and> (\<forall>c \<in> set (node_conditions n). ctype c \<noteq> ''Ready'')
      \<longrightarrow> getNodeStatus n = Unknown) \<and>
   (\<not> node_unschedulable n \<and> node_conditions n = pre @ c # post
      \<and> (\<forall>d \<in> set pre. ctype d \<noteq> ''Ready'') \<and> ctype c = ''Ready''
      \<longrightarrow> (getNodeStatus n = Ready \<longleftrightarrow> cstatus c = ''True'')
          \<and> (getNodeStatus n = NotReady \<longleftrightarrow> cstatus c \<noteq> ''True''))"
proof (intro conjI impI)
  assume "node_unschedulable n"
  then show "getNodeStatus n = SchedulingDisabled" by (simp add: getNodeStatus_def)
next
  assume "\<not> node_unschedulable n \<and> (\<forall>c \<in> set (node_conditions n). ctype c \<noteq> ''Ready'')"
  then show "getNodeStatus n = Unknown"
    by (simp add: getNodeStatus_def find_None_no_Ready[symmetric])
next
  assume a: "\<not> node_unschedulable n \<and> node_conditions n = pre @ c # post
      \<and> (\<forall>d \<in> set pre. ctype d \<noteq> ''Ready'') \<and> ctype c = ''Ready''"
  then have "readyCondition n = Some c" using find_first_Ready by blast
  with a show "getNodeStatus n = Ready \<longleftrightarrow> cstatus c = ''True''"
    by (simp add: getNodeStatus_def)
next
  assume a: "\<not> node_unschedulable n \<and> node_conditions n = pre @ c # post
      \<and> (\<forall>d \<in> set pre. ctype d \<noteq> ''Ready'') \<and> ctype c = ''Ready''"
  then have "readyCondition n = Some c" using find_first_Ready by blast
  with a show "getNodeStatus n = NotReady \<longleftrightarrow> cstatus c \<noteq> ''True''"
    by (simp add: getNodeStatus_def)
qed

theorem getNodeStatus_priority_witness:
  "getNodeStatus cordoned = SchedulingDisabled \<and> getNodeStatus bare = Unknown
   \<and> getNodeStatus healthy = Ready \<and> getNodeStatus down = NotReady"
proof (intro conjI)
  show "getNodeStatus cordoned = SchedulingDisabled"
    using getNodeStatus_priority[of cordoned] by (simp add: cordoned_def)
  show "getNodeStatus bare = Unknown"
    using getNodeStatus_priority[of bare] by (simp add: bare_def)
  show "getNodeStatus healthy = Ready"
    using getNodeStatus_priority[of healthy "[\<lparr>ctype = ''MemoryPressure'', cstatus = ''False''\<rparr>]"
        "\<lparr>ctype = ''Ready'', cstatus = ''True''\<rparr>" "[]"]
    by (simp add: healthy_def)
  show "getNodeStatus down = NotReady"
    using getNodeStatus_priority[of down "[]" "\<lparr>ctype = ''Ready'', cstatus = ''Unknown''\<rparr>" "[]"]
    by (simp add: down_def)
qed

section \<open>Cluster health score\<close>

lemma summaryPod_other:
  "nodesNotReady (summaryPod p s) = nodesNotReady s"
  "warningEventsTotal (summaryPod p s) = warningEventsTotal s"
  by (simp_all add: summaryPod_def Let_def)

lemma summaryPod_counts:
  "podsWithIssues (summaryPod p s) = podsWithIssues s + (if pod_hasIssues p then 1 else 0)"
  "failedPods (summaryPod p s) = failedPods s + (if pod_statusPhase p = Some ''Failed'' then 1 else 0)"
  by (simp_all add: summaryPod_def Let_def)

lemma fold_summaryPod_other:
  "nodesNotReady (fold summaryPod ps s) = nodesNotReady s"
  "warningEventsTotal (fold summaryPod ps s) = warningEventsTotal s"
  by (induction ps arbitrary: s) (simp_all add: summaryPod_other)

lemma fold_summaryPod_issues:
  "podsWithIssues (fold summaryPod ps s) = podsWithIssues s + length (filter pod_hasIssues ps)"
  by (induction ps arbitrary: s) (simp_all add: summaryPod_counts)

lemma fold_summaryPod_failed:
  "failedPods (fold summaryPod ps s)
     = failedPods s + length (filter (\<lambda>p. pod_statusPhase p = Some ''Failed'') ps)"
  by (induction ps arbitrary: s) (simp_all add: summaryPod_counts)

lemma fold_summaryNode_other:
  "podsWithIssues (fold summaryNode ns s) = podsWithIssues s"
  "failedPods (fold summaryNode ns s) = failedPods s"
  "warningEventsTotal (fold summaryNode ns s) = warningEventsTotal s"
  by (induction ns arbitrary: s) (simp_all add: summaryNode_def)

lemma fold_summaryNode_notReady:
  "nodesNotReady (fold summaryNode ns s)
     = nodesNotReady s + length (filter (\<lambda>n. \<not> readyIsTrue n) ns)"
  by (induction ns arbitrary: s) (simp_all add: summaryNode_def)

lemma fold_summaryEvent_other:
  "podsWithIssues (fold summaryEvent es s) = podsWithIssues s"
  "failedPods (fold summaryEvent es s) = failedPods s"
  "nodesNotReady (fold summaryEvent es s) = nodesNotReady s"
  by (induction es arbitrary: s) (simp_all add: summaryEvent_def Let_def)

lemma fold_summaryEvent_warnings:
  "warningEventsTotal (fold summaryEvent es s)
     = warningEventsTotal s + sum_list (map eventCount (filter isWarning es))"
  by (induction es arbitrary: s) (simp_all add: summaryEvent_def Let_def)

lemma summaryOf_fields:
  "nodesNotReady (summaryOf ns ps es) = length (filter (\<lambda>n. \<not> readyIsTrue n) ns)"
  "podsWithIssues (summaryOf ns ps es) = length (filter pod_hasIssues ps)"
  "failedPods (summaryOf ns ps es) = length (filter (\<lambda>p. pod_statusPhase p = Some ''Failed'') ps)"
  "warningEventsTotal (summaryOf ns ps es) = sum_list (map eventCount (filter isWarning es))"
  by (simp_all add: summaryOf_def fold_summaryEvent_other fold_summaryEvent_warnings
      fold_summaryNode_other fold_summaryNode_notReady fold_summaryPod_other
      fold_summaryPod_issues fold_summaryPod_failed summaryInit_def)

text \<open>
  C3. A schedulable node without a condition of type Ready is classified Unknown, not
  NotReady, by the status classifier, and the same node adds one to the overview's
  \<^verbatim>\<open>nodesNotReady\<close> counter, wherever it stands in the node list.
\<close>

theorem missing_Ready_Unknown_but_notReady:
  assumes "\<not> node_unschedulable n"
    and "\<forall>c \<in> set (node_conditions n). ctype c \<noteq> ''Ready''"
  shows "getNodeStatus n = Unknown \<and> getNodeStatus n \<noteq> NotReady
    \<and> nodesNotReady (summaryOf (pre @ n # post) pods events)
        = nodesNotReady (summaryOf (pre @ post) pods events) + 1"
proof -
  from assms(2) have none: "readyCondition n = None"
    by (simp add: find_None_no_Ready)
  with assms(1) have "getNodeStatus n = Unknown" by (simp add: getNodeStatus_def)
  moreover from none have "\<not> readyIsTrue n" by (simp add: readyIsTrue_def)
  ultimately show ?thesis by (simp add: summaryOf_fields)
qed

theorem missing_Ready_Unknown_but_notReady_witness:
  "getNodeStatus bare = Unknown \<and> getNodeStatus bare \<noteq> NotReady
    \<and> nodesNotReady (summaryOf ([healthy] @ bare # [down]) [] [])
        = nodesNotReady (summaryOf ([healthy] @ [down]) [] []) + 1"
  using missing_Ready_Unknown_but_notReady[of bare "[healthy]" "[down]" "[]" "[]"]
  by (simp add: bare_def)

lemma readyIsTrue_iff:
  "readyIsTrue n \<longleftrightarrow> (\<exists>c. readyCondition n = Some c \<and> cstatus c = ''True'')"
  by (simp add: readyIsTrue_def split: option.splits)

lemma Math_round_of_int: "Math_round (of_int k) = k"
  unfolding Math_round_def by linarith

lemma Math_round_numeral: "Math_round (numeral w) = numeral w"
  using Math_round_of_int[of "numeral w"] by simp

lemma Math_round_eq_iff:
  "Math_round x = k \<longleftrightarrow> of_int k \<le> x + 1 / 2 \<and> x + 1 / 2 < of_int k + 1"
  unfolding Math_round_def by (rule floor_eq_iff)

text \<open>
  C1 (as amended). With an empty node list the cluster health score is 100. With at
  least one node and at least one pod, every node's Ready condition having status True,
  no pod with issues, no pod in phase Failed and a summed warning-event count of 0, the
  score is 100.
\<close>

theorem clusterHealthScore_healthy:
  fixes ns :: "'t node list"
  shows "clusterHealthScore ([] :: 't node list) pods events = 100 \<and>
   (ns \<noteq> [] \<and> pods \<noteq> []
    \<and> (\<forall>n \<in> set ns. \<exists>c. readyCondition n = Some c \<and> cstatus c = ''True'')
    \<and> (\<forall>p \<in> set pods. \<not> pod_hasIssues p \<and> pod_statusPhase p \<noteq> Some ''Failed'')
    \<and> sum_list (map eventCount (filter isWarning events)) = 0
    \<longrightarrow> clusterHealthScore ns pods events = 100)"
proof (intro conjI impI)
  show "clusterHealthScore [] pods events = 100"
    by (simp add: clusterHealthScore_def healthFormula_def)
next
  assume a: "ns \<noteq> [] \<and> pods \<noteq> []
    \<and> (\<forall>n \<in> set ns. \<exists>c. readyCondition n = Some c \<and> cstatus c = ''True'')
    \<and> (\<forall>p \<in> set pods. \<not> pod_hasIssues p \<and> pod_statusPhase p \<noteq> Some ''Failed'')
    \<and> sum_list (map eventCount (filter isWarning events)) = 0"
  let ?s = "summaryOf ns pods events"
  from a have "filter (\<lambda>n. \<not> readyIsTrue n) ns = []"
    by (simp add: readyIsTrue_iff)
  then have nnr: "nodesNotReady ?s = 0" by (simp add: summaryOf_fields)
  from a have "filter pod_hasIssues pods = []" by simp
  then have pwi: "podsWithIssues ?s = 0" by (simp add: summaryOf_fields)
  from a have "filter (\<lambda>p. pod_statusPhase p = Some ''Failed'') pods = []" by simp
  then have fp: "failedPods ?s = 0" by (simp add: summaryOf_fields)
  from a have we: "warningEventsTotal ?s = 0" by (simp add: summaryOf_fields)
  from a have n0: "length ns > 0" and p0: "pods \<noteq> []" by simp_all
  from p0 have "max (length pods) 1 = length pods" by (cases pods) simp_all
  with p0 have "healthFormula (length ns) (length pods) ?s = Math_round (of_int 100)"
    using n0 nnr pwi fp we by (simp add: healthFormula_def)
  then show "clusterHealthScore ns pods events = 100"
    by (simp add: clusterHealthScore_def Math_round_numeral)
qed

theorem clusterHealthScore_healthy_witness:
  "clusterHealthScore ([] :: unit node list) [failedPod] [backOff20] = 100
   \<and> clusterHealthScore [healthy] [runningPod] [pulled] = 100"
  using clusterHealthScore_healthy[where pods = "[failedPod]" and events = "[backOff20]"
      and ns = "[healthy]"]
    clusterHealthScore_healthy[where pods = "[runningPod]" and events = "[pulled]"
      and ns = "[healthy]"]
  by (simp add: healthy_def runningPod_def pulled_def readyCondition_def isWarning_def)

text \<open>
  One Ready node, no pods and no events: every condition of the claim as stated holds,
  the pod term divides 0 by \<^verbatim>\<open>Math.max(pods.length, 1)\<close> and the score is 60, not 100.
\<close>

theorem clusterHealthScore_no_pods_counterexample:
  "getNodeStatus healthy = Ready \<and> clusterHealthScore [healthy] [] [] = 60"
  by (simp add: clusterHealthScore_def healthFormula_def summaryOf_def summaryInit_def
      summaryNode_def readyIsTrue_def readyCondition_def getNodeStatus_def healthy_def
      Math_round_eq_iff)

text \<open>
  Whatever the collections, the formula stays between -40 and 100: the node term is in
  [0, 40], the warning term in [0, 20], and the pod term in [-40, 40].
\<close>

lemma Math_round_mono: "x \<le> y \<Longrightarrow> Math_round x \<le> Math_round y"
  unfolding Math_round_def by (simp add: floor_mono)

lemma healthFormula_bounds:
  assumes "nodesNotReady s \<le> n" and "podsWithIssues s \<le> p" and "failedPods s \<le> p"
  shows "- 40 \<le> healthFormula n p s \<and> healthFormula n p s \<le> 100"
proof (cases "0 < n")
  case False
  then show ?thesis by (simp add: healthFormula_def)
next
  case True
  let ?a = "(of_int (int n - int (nodesNotReady s)) / of_nat n :: rat) * 40"
  let ?b = "(of_int (int p - int (podsWithIssues s) - int (failedPods s))
              / of_nat (max p 1) :: rat) * 40"
  let ?c = "(if warningEventsTotal s = 0 then 20
             else of_int (max 0 (20 - int (warningEventsTotal s))) :: rat)"
  have a: "0 \<le> ?a \<and> ?a \<le> 40"
    using True assms(1) by (simp add: field_simps)
  have m: "(0::rat) < of_nat (max p 1)" by simp
  have "- (of_nat (max p 1) :: rat) \<le> of_int (int p - int (podsWithIssues s) - int (failedPods s))"
  proof -
    have "- int (max p 1) \<le> int p - int (podsWithIssues s) - int (failedPods s)"
      using assms(2,3) by simp
    then have "(of_int (- int (max p 1)) :: rat)
        \<le> of_int (int p - int (podsWithIssues s) - int (failedPods s))"
      by (simp only: of_int_le_iff)
    then show ?thesis by simp
  qed
  moreover have "(of_int (int p - int (podsWithIssues s) - int (failedPods s)) :: rat)
      \<le> of_nat (max p 1)"
  proof -
    have "int p - int (podsWithIssues s) - int (failedPods s) \<le> int (max p 1)" by simp
    then have "(of_int (int p - int (podsWithIssues s) - int (failedPods s)) :: rat)
        \<le> of_int (int (max p 1))"
      by (simp only: of_int_le_iff)
    then show ?thesis by simp
  qed
  ultimately have b: "- 40 \<le> ?b \<and> ?b \<le> 40"
    using m by (simp add: pos_le_divide_eq pos_divide_le_eq del: of_nat_max)
  have c: "0 \<le> ?c \<and> ?c \<le> 20" by simp
  have lo: "of_int (- 40) \<le> ?a + ?b + ?c" using a b c by simp
  have hi: "?a + ?b + ?c \<le> of_int 100" using a b c by simp
  have "Math_round (of_int (- 40)) \<le> Math_round (?a + ?b + ?c)"
    using lo by (rule Math_round_mono)
  moreover have "Math_round (?a + ?b + ?c) \<le> Math_round (of_int 100)"
    using hi by (rule Math_round_mono)
  ultimately show ?thesis
    using True unfolding Math_round_of_int by (simp add: healthFormula_def)
qed

lemma clusterHealthScore_bounds:
  "- 40 \<le> clusterHealthScore ns pods events \<and> clusterHealthScore ns pods events \<le> 100"
  unfolding clusterHealthScore_def
  by (rule healthFormula_bounds) (simp_all add: summaryOf_fields)

text \<open>
  C2. The score is meant to stay between 0 and 100 without a clamp. A pod that is in
  phase Failed and also has issues is subtracted twice from the pod count, so the pod
  term can be negative: one node that is not ready, one such pod and twenty warning
  events give a score of -40.
\<close>

theorem clusterHealthScore_negative:
  "clusterHealthScore [down] [failedPod] [backOff20] = - 40"
  by (simp add: clusterHealthScore_def healthFormula_def summaryOf_def summaryInit_def
      summaryNode_def summaryPod_def summaryEvent_def eventCount_def isWarning_def
      readyIsTrue_def readyCondition_def down_def failedPod_def backOff20_def
      Math_round_eq_iff)

section \<open>Heatmap buckets\<close>

lemma Math_max0_Max: "Math_max0 xs = Max (insert 0 (set xs))"
  using Max.set_eq_fold[of 0 xs] by (simp add: Math_max0_def)

lemma ratio_ge_iff:
  fixes s m a b :: nat
  assumes "0 < m" "0 < b"
  shows "(of_nat a / of_nat b :: rat) \<le> of_nat s / of_nat m \<longleftrightarrow> a * m \<le> b * s"
proof -
  have "(of_nat a / of_nat b :: rat) \<le> of_nat s / of_nat m
      \<longleftrightarrow> (of_nat (a * m) :: rat) \<le> of_nat (b * s)"
    using assms by (simp add: field_simps)
  then show ?thesis by (simp only: of_nat_le_iff)
qed

lemma intensityOf_counts:
  "intensityOf m s =
     (if m = 0 then 0
      else if 3 * m \<le> 4 * s then 4
      else if m \<le> 2 * s then 3
      else if m \<le> 4 * s then 2
      else if 0 < s then 1
      else 0)"
proof (cases "m = 0")
  case True
  then show ?thesis by (simp add: intensityOf_def)
next
  case False
  then have m: "0 < m" by simp
  have a: "(3 / 4 :: rat) \<le> of_nat s / of_nat m \<longleftrightarrow> 3 * m \<le> 4 * s"
    using ratio_ge_iff[OF m, of 4 3 s] by simp
  have b: "(1 / 2 :: rat) \<le> of_nat s / of_nat m \<longleftrightarrow> m \<le> 2 * s"
    using ratio_ge_iff[OF m, of 2 1 s] by simp
  have c: "(1 / 4 :: rat) \<le> of_nat s / of_nat m \<longleftrightarrow> m \<le> 4 * s"
    using ratio_ge_iff[OF m, of 4 1 s] by simp
  have d: "(0 :: rat) < of_nat s / of_nat m \<longleftrightarrow> 0 < s"
    using m by (simp add: zero_less_divide_iff)
  show ?thesis
    using False unfolding intensityOf_def Let_def by (simp only: a b c d if_False)
qed

text \<open>
  C7. The bucketizer takes maxScore as the maximum of 0 and all issue scores, keeps the
  entries in input order, and gives the entry at each position the intensity 4 when its
  score is at least three quarters of maxScore, 3 when at least half, 2 when at least a
  quarter, 1 when positive, and 0 otherwise or when maxScore is 0 (the thresholds on the
  ratio are stated on the counts). An entry whose score is a positive maxScore gets 4, an
  entry whose score is 0 gets 0.
\<close>

theorem heatmapEntries_buckets:
  assumes "k < length stats"
  defines "maxScore \<equiv> Max (insert 0 (issueScore ` set stats))"
    and "s \<equiv> issueScore (stats ! k)"
    and "i \<equiv> snd (heatmapEntries stats ! k)"
  shows "map fst (heatmapEntries stats) = stats
    \<and> i = (if maxScore = 0 then 0
           else if 3 * maxScore \<le> 4 * s then 4
           else if maxScore \<le> 2 * s then 3
           else if maxScore \<le> 4 * s then 2
           else if 0 < s then 1
           else 0)
    \<and> (s = maxScore \<and> 0 < maxScore \<longrightarrow> i = 4)
    \<and> (s = 0 \<longrightarrow> i = 0)"
proof -
  have order: "map fst (heatmapEntries stats) = stats"
    by (simp add: heatmapEntries_def Let_def comp_def)
  have mx: "Math_max0 (map issueScore stats) = maxScore"
    by (simp add: Math_max0_Max maxScore_def)
  have i: "i = intensityOf maxScore s"
    using assms(1) by (simp add: i_def s_def heatmapEntries_def Let_def mx)
  show ?thesis
    unfolding i intensityOf_counts using order by auto
qed

theorem heatmapEntries_buckets_witness:
  "map fst (heatmapEntries [sampleStats ''a'' 2, sampleStats ''b'' 8, sampleStats ''c'' 0])
     = [sampleStats ''a'' 2, sampleStats ''b'' 8, sampleStats ''c'' 0]
   \<and> snd (heatmapEntries [sampleStats ''a'' 2, sampleStats ''b'' 8, sampleStats ''c'' 0] ! 0) = 2
   \<and> snd (heatmapEntries [sampleStats ''a'' 2, sampleStats ''b'' 8, sampleStats ''c'' 0] ! 1) = 4
   \<and> snd (heatmapEntries [sampleStats ''a'' 2, sampleStats ''b'' 8, sampleStats ''c'' 0] ! 2) = 0"
  using heatmapEntries_buckets[of 0 "[sampleStats ''a'' 2, sampleStats ''b'' 8, sampleStats ''c'' 0]"]
    heatmapEntries_buckets[of 1 "[sampleStats ''a'' 2, sampleStats ''b'' 8, sampleStats ''c'' 0]"]
    heatmapEntries_buckets[of 2 "[sampleStats ''a'' 2, sampleStats ''b'' 8, sampleStats ''c'' 0]"]
  by (simp add: sampleStats_def)

section \<open>Namespace pod statistics\<close>

lemma jsmap_get_in: "jsmap_get m k = Some v \<Longrightarrow> (k, v) \<in> set m"
  by (induction m) (auto split: if_splits)

lemma jsmap_upsert_inv:
  assumes "\<forall>p \<in> set m. P (fst p) (snd p)"
    and "P k d"
    and "\<And>v. P k v \<Longrightarrow> P k (g v)"
  shows "\<forall>p \<in> set (jsmap_set k (g (case jsmap_get m k of None \<Rightarrow> d | Some v \<Rightarrow> v)) m).
           P (fst p) (snd p)"
proof
  fix p
  assume "p \<in> set (jsmap_set k (g (case jsmap_get m k of None \<Rightarrow> d | Some v \<Rightarrow> v)) m)"
  from jsmap_set_entries[OF this]
  consider "p = (k, g (case jsmap_get m k of None \<Rightarrow> d | Some v \<Rightarrow> v))" | "p \<in> set m"
    by blast
  then show "P (fst p) (snd p)"
  proof cases
    case 1
    have "P k (case jsmap_get m k of None \<Rightarrow> d | Some v \<Rightarrow> v)"
    proof (cases "jsmap_get m k")
      case None
      with assms(2) show ?thesis by simp
    next
      case (Some v)
      with assms(1) jsmap_get_in[OF Some] show ?thesis by force
    qed
    with 1 assms(3) show ?thesis by simp
  next
    case 2
    with assms(1) show ?thesis by blast
  qed
qed

lemma statsOk_new: "statsOk ns (newStats w ns)"
  by (simp add: statsOk_def newStats_def)

lemma statsOk_addPod: "statsOk k e \<Longrightarrow> statsOk k (addPod p e)"
  by (cases "getPodPhase p") (simp_all add: statsOk_def addPod_def countPhase_def Let_def)

lemma podStatsStep_ok:
  assumes "\<forall>q \<in> set m. statsOk (fst q) (snd q)"
  shows "\<forall>q \<in> set (podStatsStep w p m). statsOk (fst q) (snd q)"
  unfolding podStatsStep_def Let_def
  using assms statsOk_new statsOk_addPod by (rule jsmap_upsert_inv)

lemma fold_podStatsStep_ok:
  "\<forall>q \<in> set m. statsOk (fst q) (snd q)
   \<Longrightarrow> \<forall>q \<in> set (fold (podStatsStep w) pods m). statsOk (fst q) (snd q)"
proof (induction pods arbitrary: m)
  case Nil
  then show ?case by simp
next
  case (Cons p pods)
  from podStatsStep_ok[OF Cons.prems] have "\<forall>q \<in> set (podStatsStep w p m). statsOk (fst q) (snd q)" .
  from Cons.IH[OF this] show ?case by simp
qed

lemma podStatsStep_keys:
  "map fst (podStatsStep w p m)
     = (if podNamespace p \<in> set (map fst m) then map fst m else map fst m @ [podNamespace p])"
  by (simp add: podStatsStep_def Let_def jsmap_set_keys)

lemma podStatsStep_keyset:
  "set (map fst (podStatsStep w p m)) = insert (podNamespace p) (set (map fst m))"
  unfolding podStatsStep_keys by auto

lemma fold_podStatsStep_keys:
  "set (map fst (fold (podStatsStep w) pods m)) = set (map fst m) \<union> set (map podNamespace pods)"
proof (induction pods arbitrary: m)
  case Nil
  then show ?case by simp
next
  case (Cons p pods)
  have "set (map fst (fold (podStatsStep w) (p # pods) m))
      = set (map fst (podStatsStep w p m)) \<union> set (map podNamespace pods)"
    using Cons.IH[of "podStatsStep w p m"] by simp
  then show ?case unfolding podStatsStep_keyset by simp
qed

lemma fold_podStatsStep_distinct:
  "distinct (map fst m) \<Longrightarrow> distinct (map fst (fold (podStatsStep w) pods m))"
  by (induction pods arbitrary: m) (auto simp: podStatsStep_keys)

lemma scoreEntry_fields:
  "namespace (scoreEntry w e) = namespace e"
  "running (scoreEntry w e) = running e"
  "pending (scoreEntry w e) = pending e"
  "failed (scoreEntry w e) = failed e"
  "succeeded (scoreEntry w e) = succeeded e"
  "unknown (scoreEntry w e) = unknown e"
  "total (scoreEntry w e) = total e"
  "issues (scoreEntry w e) = issues e"
  "restarts (scoreEntry w e) = restarts e"
  "warningEvents (scoreEntry w e) = warningsOf w (namespace e)"
  "issueScore (scoreEntry w e) = issues e + restarts e + warningsOf w (namespace e)"
  by (simp_all add: scoreEntry_def Let_def)

lemma statsCompare_le:
  "statsCompare a b \<le> 0 \<longleftrightarrow> issues b < issues a \<or> (issues b = issues a \<and> total b \<le> total a)"
  by (auto simp: statsCompare_def)

lemma buildNamespacePodStats_set:
  "set (buildNamespacePodStats pods w)
     = (\<lambda>q. scoreEntry w (snd q)) ` set (fold (podStatsStep w) pods [])"
  by (simp add: buildNamespacePodStats_def sortBy_set jsmap_values_def image_image)

lemma buildNamespacePodStats_from:
  assumes "e \<in> set (buildNamespacePodStats pods w)"
  obtains e0 where "e = scoreEntry w e0" and "statsOk (namespace e0) e0"
proof -
  from assms obtain q where q: "q \<in> set (fold (podStatsStep w) pods [])" and e: "e = scoreEntry w (snd q)"
    unfolding buildNamespacePodStats_set by blast
  have "\<forall>q \<in> set (fold (podStatsStep w) pods []). statsOk (fst q) (snd q)"
    by (rule fold_podStatsStep_ok) simp
  with q have "statsOk (fst q) (snd q)" by blast
  then have "statsOk (namespace (snd q)) (snd q)" by (simp add: statsOk_def)
  with e that show thesis by blast
qed

text \<open>
  C9. In every entry the namespace issue scorer returns, the five phase counts add up to
  the entry's total.
\<close>

theorem buildNamespacePodStats_phase_sum:
  assumes "e \<in> set (buildNamespacePodStats pods w)"
  shows "running e + pending e + failed e + succeeded e + unknown e = total e"
proof -
  from assms obtain e0 where "e = scoreEntry w e0" and "statsOk (namespace e0) e0"
    by (rule buildNamespacePodStats_from)
  then show ?thesis by (simp add: scoreEntry_fields statsOk_def)
qed

lemma buildNamespacePodStats_sample:
  "buildNamespacePodStats samplePods sampleWarnings = [batchStats, defaultStats, unknownStats]"
  by (simp add: buildNamespacePodStats_def samplePods_def sampleWarnings_def sortBy_def
      jsmap_values_def podStatsStep_def podNamespace_def newStats_def warningsOf_def
      addPod_def countPhase_def getPodPhase_def scoreEntry_def statsCompare_def Let_def
      runningPod_def pendingPod_def failedPod_def orphanPod_def
      batchStats_def defaultStats_def unknownStats_def)

theorem buildNamespacePodStats_phase_sum_witness:
  "batchStats \<in> set (buildNamespacePodStats samplePods sampleWarnings)
   \<and> running batchStats + pending batchStats + failed batchStats + succeeded batchStats
        + unknown batchStats = total batchStats"
proof -
  have mem: "batchStats \<in> set (buildNamespacePodStats samplePods sampleWarnings)"
    by (simp add: buildNamespacePodStats_sample)
  from buildNamespacePodStats_phase_sum[OF mem] mem show ?thesis by simp
qed

lemma buildNamespacePodStats_namespaces:
  "map namespace (buildNamespacePodStats pods w)
     = map namespace (sortBy statsCompare
         (map (scoreEntry w) (jsmap_values (fold (podStatsStep w) pods []))))"
  by (simp add: buildNamespacePodStats_def)

lemma values_namespaces:
  assumes "\<forall>q \<in> set m. statsOk (fst q) (snd q)"
  shows "map namespace (map (scoreEntry w) (jsmap_values m)) = map fst m"
  using assms by (induction m) (simp_all add: jsmap_values_def scoreEntry_fields statsOk_def)

text \<open>
  C6. The namespace issue scorer returns one entry per distinct pod namespace (the
  placeholder \<^verbatim>\<open><unknown>\<close> for a pod without one); in each entry the warning-event
  count is the mapping's value for the entry's namespace, 0 when the mapping has none,
  and the issue score is issues + restarts + warningEvents; the list is sorted descending
  by issue count, ties descending by total pod count.
\<close>

theorem buildNamespacePodStats_scores_sorted:
  "distinct (map namespace (buildNamespacePodStats pods w))
   \<and> set (map namespace (buildNamespacePodStats pods w)) = set (map podNamespace pods)
   \<and> (e \<in> set (buildNamespacePodStats pods w) \<longrightarrow>
        warningEvents e = (case jsmap_get w (namespace e) of None \<Rightarrow> 0 | Some c \<Rightarrow> c)
        \<and> issueScore e = issues e + restarts e + warningEvents e)
   \<and> sorted_wrt (\<lambda>a b. issues b < issues a \<or> (issues b = issues a \<and> total b \<le> total a))
        (buildNamespacePodStats pods w)"
proof (intro conjI impI)
  let ?m = "fold (podStatsStep w) pods []"
  let ?vs = "map (scoreEntry w) (jsmap_values ?m)"
  have ok: "\<forall>q \<in> set ?m. statsOk (fst q) (snd q)"
    by (rule fold_podStatsStep_ok) simp
  have ns: "map namespace ?vs = map fst ?m"
    using ok by (rule values_namespaces)
  have d: "distinct (map fst ?m)"
    by (rule fold_podStatsStep_distinct) simp
  show "distinct (map namespace (buildNamespacePodStats pods w))"
    unfolding buildNamespacePodStats_def sortBy_distinct ns by (rule d)
  have "set (map namespace (buildNamespacePodStats pods w)) = namespace ` set ?vs"
    unfolding buildNamespacePodStats_def by (simp only: set_map sortBy_set)
  also have "\<dots> = set (map namespace ?vs)" by (simp only: set_map)
  also have "\<dots> = set (map podNamespace pods)"
    unfolding ns fold_podStatsStep_keys by simp
  finally show "set (map namespace (buildNamespacePodStats pods w)) = set (map podNamespace pods)" .
  show "sorted_wrt (\<lambda>a b. issues b < issues a \<or> (issues b = issues a \<and> total b \<le> total a))
        (buildNamespacePodStats pods w)"
  proof -
    have "sorted_wrt (\<lambda>a b. statsCompare a b \<le> 0) (sortBy statsCompare ?vs)"
      by (rule sortBy_sorted) (auto simp: statsCompare_le)
    then show ?thesis
      unfolding buildNamespacePodStats_def by (simp only: statsCompare_le)
  qed
next
  assume "e \<in> set (buildNamespacePodStats pods w)"
  then obtain e0 where e: "e = scoreEntry w e0"
    by (rule buildNamespacePodStats_from)
  show "warningEvents e = (case jsmap_get w (namespace e) of None \<Rightarrow> 0 | Some c \<Rightarrow> c)"
    unfolding e by (simp add: scoreEntry_fields warningsOf_def)
next
  assume "e \<in> set (buildNamespacePodStats pods w)"
  then obtain e0 where e: "e = scoreEntry w e0"
    by (rule buildNamespacePodStats_from)
  show "issueScore e = issues e + restarts e + warningEvents e"
    unfolding e by (simp add: scoreEntry_fields)
qed

theorem buildNamespacePodStats_scores_sorted_witness:
  "map namespace (buildNamespacePodStats samplePods sampleWarnings)
     = [''batch'', ''default'', ''<unknown>'']
   \<and> set (map podNamespace samplePods) = {''batch'', ''default'', ''<unknown>''}
   \<and> defaultStats \<in> set (buildNamespacePodStats samplePods sampleWarnings)
   \<and> warningEvents defaultStats = 2 \<and> issueScore defaultStats = 1 + 0 + 2
   \<and> map issues (buildNamespacePodStats samplePods sampleWarnings) = [2, 1, 0]"
  using buildNamespacePodStats_scores_sorted[of samplePods sampleWarnings defaultStats]
  by (simp add: buildNamespacePodStats_sample)
     (simp add: batchStats_def defaultStats_def unknownStats_def sampleWarnings_def)

section \<open>Taint summary\<close>

lemma taintStep_upsert:
  "taintStep fmt nodeName t m =
     jsmap_set (fmt t)
       (touchTaint nodeName (case jsmap_get m (fmt t) of
                               None \<Rightarrow> \<lparr>td_nodes = [], td_occurrences = 0\<rparr>
                             | Some e \<Rightarrow> e)) m"
  by (simp add: taintStep_def touchTaint_def Let_def)

lemma taintOk_touch: "taintOk k d \<Longrightarrow> taintOk k (touchTaint nodeName d)"
  by (simp add: taintOk_def touchTaint_def jsset_add_def)

lemma taintStep_ok:
  assumes "\<forall>q \<in> set m. taintOk (fst q) (snd q)"
  shows "\<forall>q \<in> set (taintStep fmt nodeName t m). taintOk (fst q) (snd q)"
  unfolding taintStep_upsert
proof (rule jsmap_upsert_inv[OF assms])
  show "taintOk (fmt t) \<lparr>td_nodes = [], td_occurrences = 0\<rparr>" by (simp add: taintOk_def)
  show "\<And>v. taintOk (fmt t) v \<Longrightarrow> taintOk (fmt t) (touchTaint nodeName v)"
    by (rule taintOk_touch)
qed

lemma fold_taintStep_ok:
  "\<forall>q \<in> set m. taintOk (fst q) (snd q)
   \<Longrightarrow> \<forall>q \<in> set (fold (taintStep fmt nodeName) ts m). taintOk (fst q) (snd q)"
proof (induction ts arbitrary: m)
  case Nil
  then show ?case by simp
next
  case (Cons t ts)
  from Cons.IH[OF taintStep_ok[OF Cons.prems]] show ?case by simp
qed

lemma fold_taintNodeStep_ok:
  "\<forall>q \<in> set m. taintOk (fst q) (snd q)
   \<Longrightarrow> \<forall>q \<in> set (fold (taintNodeStep fmt) ns m). taintOk (fst q) (snd q)"
proof (induction ns arbitrary: m)
  case Nil
  then show ?case by simp
next
  case (Cons n ns)
  have "\<forall>q \<in> set (taintNodeStep fmt n m). taintOk (fst q) (snd q)"
    unfolding taintNodeStep_def using Cons.prems by (rule fold_taintStep_ok)
  from Cons.IH[OF this] show ?case by simp
qed

lemma taintCompare_le: "taintCompare a b \<le> 0 \<longleftrightarrow> occurrences b \<le> occurrences a"
  by (simp add: taintCompare_def)

text \<open>
  C8. Every entry of the taint summary counts at most as many distinct nodes as
  occurrences, and the summary is sorted descending by occurrence count.
\<close>

theorem buildTaintSummary_bounded_sorted:
  "(e \<in> set (buildTaintSummary fmt ns) \<longrightarrow> nodes e \<le> occurrences e)
   \<and> sorted_wrt (\<lambda>a b. occurrences b \<le> occurrences a) (buildTaintSummary fmt ns)"
proof (intro conjI impI)
  assume "e \<in> set (buildTaintSummary fmt ns)"
  then obtain q where q: "q \<in> set (fold (taintNodeStep fmt) ns [])" and e: "e = taintItem q"
    by (auto simp: buildTaintSummary_def sortBy_set)
  have "\<forall>q \<in> set (fold (taintNodeStep fmt) ns []). taintOk (fst q) (snd q)"
    by (rule fold_taintNodeStep_ok) simp
  with q have "taintOk (fst q) (snd q)" by blast
  then show "nodes e \<le> occurrences e"
    unfolding e by (simp add: taintItem_def taintOk_def)
next
  have "sorted_wrt (\<lambda>a b. taintCompare a b \<le> 0)
          (sortBy taintCompare (map taintItem (fold (taintNodeStep fmt) ns [])))"
    by (rule sortBy_sorted) (auto simp: taintCompare_le)
  then show "sorted_wrt (\<lambda>a b. occurrences b \<le> occurrences a) (buildTaintSummary fmt ns)"
    unfolding buildTaintSummary_def by (simp only: taintCompare_le)
qed

lemma buildTaintSummary_sample:
  "buildTaintSummary labelOf [gpuSpot, gpuTwice] = [gpuItem, spotItem]"
  by (simp add: buildTaintSummary_def taintNodeStep_def taintStep_def taintItem_def
      taintCompare_def sortBy_def jsset_add_def labelOf_def Let_def
      gpuSpot_def gpuTwice_def gpuItem_def spotItem_def)

theorem buildTaintSummary_bounded_sorted_witness:
  "gpuItem \<in> set (buildTaintSummary labelOf [gpuSpot, gpuTwice])
   \<and> nodes gpuItem \<le> occurrences gpuItem
   \<and> map occurrences (buildTaintSummary labelOf [gpuSpot, gpuTwice]) = [3, 1]"
  using buildTaintSummary_bounded_sorted[of gpuItem labelOf "[gpuSpot, gpuTwice]"]
  by (simp add: buildTaintSummary_sample) (simp add: gpuItem_def spotItem_def)

section \<open>Warning events by namespace and by reason\<close>

lemma jsmap_upsert_sum:
  fixes h :: "'v \<Rightarrow> nat"
  assumes "h d = 0" and "\<And>v. h (g v) = h v + c"
  shows "sum_list (map (\<lambda>q. h (snd q))
           (jsmap_set k (g (case jsmap_get m k of None \<Rightarrow> d | Some v \<Rightarrow> v)) m))
         = sum_list (map (\<lambda>q. h (snd q)) m) + c"
  by (induction m) (auto simp: assms)

lemma warningNsStep_sum:
  "sum_list (map snd (warningNsStep e m))
     = sum_list (map snd m) + (if isWarning e then eventCount e else 0)"
proof (cases "isWarning e")
  case True
  have "sum_list (map (\<lambda>q. snd q)
          (jsmap_set (eventNamespace e)
             ((\<lambda>v. v + eventCount e)
                (case jsmap_get m (eventNamespace e) of None \<Rightarrow> 0 | Some v \<Rightarrow> v)) m))
        = sum_list (map (\<lambda>q. snd q) m) + eventCount e"
    by (rule jsmap_upsert_sum[where h = "\<lambda>v. v"]) simp_all
  with True show ?thesis by (simp add: warningNsStep_def Let_def)
next
  case False
  then show ?thesis by (simp add: warningNsStep_def)
qed

lemma fold_warningNsStep_sum:
  "sum_list (map snd (fold warningNsStep es m))
     = sum_list (map snd m) + sum_list (map eventCount (filter isWarning es))"
  by (induction es arbitrary: m) (simp_all add: warningNsStep_sum)

lemma addWarning_count: "rd_count (addWarning e d) = rd_count d + eventCount e"
  by (simp add: addWarning_def Let_def)

lemma warningReasonStep_sum:
  "sum_list (map (\<lambda>q. rd_count (snd q)) (warningReasonStep e m))
     = sum_list (map (\<lambda>q. rd_count (snd q)) m) + (if isWarning e then eventCount e else 0)"
proof (cases "isWarning e")
  case True
  have "sum_list (map (\<lambda>q. rd_count (snd q))
          (jsmap_set (eventReason e)
             (addWarning e (case jsmap_get m (eventReason e) of
                              None \<Rightarrow> emptyReason | Some v \<Rightarrow> v)) m))
        = sum_list (map (\<lambda>q. rd_count (snd q)) m) + eventCount e"
    by (rule jsmap_upsert_sum) (simp_all add: emptyReason_def addWarning_count)
  with True show ?thesis by (simp add: warningReasonStep_def Let_def)
next
  case False
  then show ?thesis by (simp add: warningReasonStep_def)
qed

lemma fold_warningReasonStep_sum:
  "sum_list (map (\<lambda>q. rd_count (snd q)) (fold warningReasonStep es m))
     = sum_list (map (\<lambda>q. rd_count (snd q)) m)
       + sum_list (map eventCount (filter isWarning es))"
  by (induction es arbitrary: m) (simp_all add: warningReasonStep_sum)

lemma fold_eventSummaryStep_warnings:
  "es_warnings (fold eventSummaryStep es s)
     = es_warnings s + sum_list (map eventCount (filter isWarning es))"
  by (induction es arbitrary: s) (simp_all add: eventSummaryStep_def Let_def)

lemma buildWarningReasons_total:
  "sum_list (map wr_count (buildWarningReasons events))
     = sum_list (map eventCount (filter isWarning events))"
proof -
  have "sum_list (map wr_count (buildWarningReasons events))
      = sum_list (map wr_count (map reasonItem (fold warningReasonStep events [])))"
    unfolding buildWarningReasons_def by (rule sortBy_sum)
  also have "\<dots> = sum_list (map (\<lambda>q. rd_count (snd q)) (fold warningReasonStep events []))"
    by (simp add: comp_def reasonItem_def)
  finally show ?thesis by (simp add: fold_warningReasonStep_sum)
qed

text \<open>
  C4. For every event list, the counts of the by-reason warning aggregation, the counts
  of the by-namespace warning aggregation and the warning total of the event summary all
  add up to the same number: the sum of the counts (1 when absent) of the warning events.
\<close>

theorem warning_totals_agree:
  "sum_list (map wr_count (buildWarningReasons events))
     = sum_list (map snd (buildWarningEventsByNamespace events))
   \<and> sum_list (map snd (buildWarningEventsByNamespace events))
     = es_warnings (eventSummaryOf events)
   \<and> es_warnings (eventSummaryOf events)
     = sum_list (map eventCount (filter isWarning events))"
  by (simp add: buildWarningReasons_total buildWarningEventsByNamespace_def
      fold_warningNsStep_sum eventSummaryOf_def fold_eventSummaryStep_warnings)

theorem warning_totals_agree_witness:
  "sum_list (map wr_count (buildWarningReasons sampleEvents)) = 6
   \<and> sum_list (map snd (buildWarningEventsByNamespace sampleEvents)) = 6
   \<and> es_warnings (eventSummaryOf sampleEvents) = 6"
  using warning_totals_agree[of sampleEvents]
  by (simp add: sampleEvents_def warningOn_def pulled_def isWarning_def eventCount_def)

section \<open>The resources sample of a warning reason\<close>

lemma addWarning_resources:
  "rd_resources (addWarning e d)
     = (if length (rd_resources d) < 10 then rd_resources d @ [resourceOf e]
        else rd_resources d)"
  by (simp add: addWarning_def Let_def resourceOf_def)

lemma addWarning_namespaces:
  "set (rd_namespaces (addWarning e d)) = insert (involvedNamespace e) (set (rd_namespaces d))"
  by (auto simp: addWarning_def Let_def jsset_add_def)

lemma fold_addWarning_count:
  "rd_count (fold addWarning es d) = rd_count d + sum_list (map eventCount es)"
  by (induction es arbitrary: d) (simp_all add: addWarning_count)

lemma fold_addWarning_namespaces:
  "set (rd_namespaces (fold addWarning es d))
     = set (rd_namespaces d) \<union> set (map involvedNamespace es)"
  by (induction es arbitrary: d) (simp_all add: addWarning_namespaces)

lemma fold_addWarning_resources:
  "length (rd_resources d) \<le> 10 \<Longrightarrow>
   rd_resources (fold addWarning es d) = take 10 (rd_resources d @ map resourceOf es)"
proof (induction es arbitrary: d)
  case Nil
  then show ?case by simp
next
  case (Cons e es)
  show ?case
  proof (cases "length (rd_resources d) < 10")
    case True
    then have "length (rd_resources (addWarning e d)) \<le> 10"
      by (simp add: addWarning_resources)
    from Cons.IH[OF this] True show ?thesis by (simp add: addWarning_resources)
  next
    case False
    with Cons.prems have len: "length (rd_resources d) = 10" by simp
    then have "length (rd_resources (addWarning e d)) \<le> 10"
      by (simp add: addWarning_resources)
    from Cons.IH[OF this] len show ?thesis by (simp add: addWarning_resources)
  qed
qed

lemma fold_warningReasonStep_get:
  "jsmap_get (fold warningReasonStep es m) r =
     (if warningsFor r es = [] then jsmap_get m r
      else Some (fold addWarning (warningsFor r es)
                   (case jsmap_get m r of None \<Rightarrow> emptyReason | Some d \<Rightarrow> d)))"
proof (induction es arbitrary: m)
  case Nil
  then show ?case by (simp add: warningsFor_def)
next
  case (Cons e es)
  show ?case
  proof (cases "isWarning e \<and> eventReason e = r")
    case True
    then have step: "jsmap_get (warningReasonStep e m) r
        = Some (addWarning e (case jsmap_get m r of None \<Rightarrow> emptyReason | Some d \<Rightarrow> d))"
      by (simp add: warningReasonStep_def Let_def jsmap_get_set)
    from True have w: "warningsFor r (e # es) = e # warningsFor r es"
      by (simp add: warningsFor_def)
    show ?thesis
      using Cons.IH[of "warningReasonStep e m"] by (simp add: step w)
  next
    case False
    then have step: "jsmap_get (warningReasonStep e m) r = jsmap_get m r"
      by (auto simp: warningReasonStep_def Let_def jsmap_get_set)
    from False have w: "warningsFor r (e # es) = warningsFor r es"
      by (auto simp: warningsFor_def)
    show ?thesis
      using Cons.IH[of "warningReasonStep e m"] by (simp add: step w)
  qed
qed

lemma warningReasonStep_keys:
  "map fst (warningReasonStep e m)
     = (if isWarning e \<and> eventReason e \<notin> set (map fst m) then map fst m @ [eventReason e]
        else map fst m)"
  by (simp add: warningReasonStep_def Let_def jsmap_set_keys)

lemma fold_warningReasonStep_distinct:
  "distinct (map fst m) \<Longrightarrow> distinct (map fst (fold warningReasonStep es m))"
  by (induction es arbitrary: m) (simp_all add: warningReasonStep_keys)

lemma buildWarningReasons_entry:
  assumes "x \<in> set (buildWarningReasons events)"
  shows "warningsFor (wr_reason x) events \<noteq> []
    \<and> x = reasonItem (wr_reason x, fold addWarning (warningsFor (wr_reason x) events) emptyReason)"
proof -
  let ?m = "fold warningReasonStep events []"
  from assms obtain q where q: "q \<in> set ?m" and x: "x = reasonItem q"
    by (auto simp: buildWarningReasons_def sortBy_set)
  have r: "wr_reason x = fst q" by (simp add: x reasonItem_def)
  have "distinct (map fst ?m)" by (rule fold_warningReasonStep_distinct) simp
  then have "jsmap_get ?m (fst q) = Some (snd q)"
    using q by (simp add: jsmap_get_Some_iff)
  then have "warningsFor (fst q) events \<noteq> []
      \<and> snd q = fold addWarning (warningsFor (fst q) events) emptyReason"
    unfolding fold_warningReasonStep_get by (simp split: if_splits)
  then show ?thesis unfolding r by (simp add: x reasonItem_def)
qed

lemma distinct_reasons:
  "distinct (map wr_reason (buildWarningReasons events))"
proof -
  have "map wr_reason (map reasonItem (fold warningReasonStep events []))
      = map fst (fold warningReasonStep events [])"
    by (simp add: comp_def reasonItem_def)
  moreover have "distinct (map fst (fold warningReasonStep events []))"
    by (rule fold_warningReasonStep_distinct) simp
  ultimately have "distinct (map wr_reason (map reasonItem (fold warningReasonStep events [])))"
    by (simp only:)
  then show ?thesis
    unfolding buildWarningReasons_def by (simp only: sortBy_distinct)
qed

text \<open>
  C10. The by-reason summary has at most one entry per reason. For an entry with reason
  r, let evs be the warning events of the input whose reason resolves to r, in input
  order (there is at least one). The entry's resources are the involved-object names of
  the first min(10, length evs) of them, in that order and without removing repeated
  names; its count is the sum of the counts of all of evs and its namespaces are those of
  all of evs, so the events after the tenth add to count and namespaces and not to the
  sample.
\<close>

theorem buildWarningReasons_resources:
  assumes "x \<in> set (buildWarningReasons events)"
  defines "evs \<equiv> filter (\<lambda>e. isWarning e \<and> eventReason e = wr_reason x) events"
  shows "distinct (map wr_reason (buildWarningReasons events))
    \<and> evs \<noteq> []
    \<and> wr_resources x
        = map (\<lambda>e. io_name (ev_involvedObject e)) (take (min 10 (length evs)) evs)
    \<and> wr_count x = sum_list (map eventCount evs)
    \<and> set (wr_namespaces x) = set (map involvedNamespace evs)"
proof -
  have evs: "evs = warningsFor (wr_reason x) events"
    by (simp add: evs_def warningsFor_def)
  from buildWarningReasons_entry[OF assms(1)]
  have ne: "evs \<noteq> []" and x: "x = reasonItem (wr_reason x, fold addWarning evs emptyReason)"
    unfolding evs by simp_all
  have "wr_resources x = rd_resources (fold addWarning evs emptyReason)"
    by (subst x) (simp add: reasonItem_def)
  also have "\<dots> = take 10 (map resourceOf evs)"
    using fold_addWarning_resources[of emptyReason evs] by (simp add: emptyReason_def)
  also have "\<dots> = map resourceOf (take (min 10 (length evs)) evs)"
    by (cases "10 \<le> length evs") (simp_all add: take_map min_def)
  also have "\<dots> = map (\<lambda>e. io_name (ev_involvedObject e)) (take (min 10 (length evs)) evs)"
    by (simp add: resourceOf_def[abs_def])
  finally have res: "wr_resources x
      = map (\<lambda>e. io_name (ev_involvedObject e)) (take (min 10 (length evs)) evs)" .
  have "wr_count x = rd_count (fold addWarning evs emptyReason)"
    by (subst x) (simp add: reasonItem_def)
  then have cnt: "wr_count x = sum_list (map eventCount evs)"
    by (simp add: fold_addWarning_count emptyReason_def)
  have "wr_namespaces x = rd_namespaces (fold addWarning evs emptyReason)"
    by (subst x) (simp add: reasonItem_def)
  then have nss: "set (wr_namespaces x) = set (map involvedNamespace evs)"
    by (simp add: fold_addWarning_namespaces emptyReason_def)
  from distinct_reasons ne res cnt nss show ?thesis by blast
qed

lemma buildWarningReasons_burst:
  "buildWarningReasons burst = [backOffSummary, failedMountSummary]"
  by (simp add: buildWarningReasons_def burst_def warningOn_def pulled_def sortBy_def
      warningReasonStep_def addWarning_def emptyReason_def reasonItem_def reasonCompare_def
      isWarning_def eventReason_def eventCount_def involvedNamespace_def jsset_add_def
      Let_def backOffSummary_def failedMountSummary_def)

theorem buildWarningReasons_resources_witness:
  "backOffSummary \<in> set (buildWarningReasons burst)
   \<and> length (filter (\<lambda>e. isWarning e \<and> eventReason e = ''BackOff'') burst) = 12
   \<and> wr_resources backOffSummary
       = [''web-0'', ''web-1'', ''web-0'', ''web-1'', ''web-0'', ''web-1'',
          ''web-0'', ''web-1'', ''web-0'', ''web-1'']
   \<and> wr_count backOffSummary = 16
   \<and> set (wr_namespaces backOffSummary) = {''a'', ''z''}"
proof -
  have mem: "backOffSummary \<in> set (buildWarningReasons burst)"
    by (simp add: buildWarningReasons_burst)
  have r: "wr_reason backOffSummary = ''BackOff''" by (simp add: backOffSummary_def)
  from buildWarningReasons_resources[OF mem] mem show ?thesis
    unfolding r
    by (simp add: burst_def warningOn_def pulled_def isWarning_def eventReason_def
        eventCount_def involvedNamespace_def)
qed


end
